theory Spec2Isabelle
  imports Main
begin

section \<open>A shallow embedding of the tiny shell \<open>tsh\<close> (shell.c)\<close>

text \<open>
  The theory models the line parser (\<open>parseline\<close>), the built-in dispatcher
  (\<open>builtin_cmd\<close>, \<open>makefg\<close>), the signal handlers, the foreground wait (\<open>waitfg\<close>)
  and the launcher (\<open>eval\<close>) of shell.c.

  A C string is the list of its characters before the terminating NUL. A pointer into
  the parser's buffer is the list of characters from that position on; a token stored
  in \<open>argv\<close> is the list of characters of the NUL-terminated string its pointer
  designates, and the null pointer is \<open>None\<close>. A write outside an array is undefined
  behaviour in C; the model makes it a value of type \<open>fault\<close>.
\<close>

subsection \<open>Constants and characters\<close>

definition MAXLINE :: nat where
  "MAXLINE = 1024"

definition MAXARGS :: nat where
  "MAXARGS = 128"

abbreviation SPACE :: char where
  "SPACE \<equiv> CHR '' ''"

abbreviation QUOTE :: char where
  "QUOTE \<equiv> CHR 0x27"

abbreviation AMP :: char where
  "AMP \<equiv> CHR ''&''"

abbreviation NEWLINE :: char where
  "NEWLINE \<equiv> CHR 0x0A"

abbreviation NUL :: char where
  "NUL \<equiv> CHR 0x00"

datatype fault =
    LineOverflow      \<comment> \<open>\<open>strcpy\<close> of a string that does not fit \<open>char [MAXLINE]\<close>\<close>
  | LineUnderflow     \<comment> \<open>\<open>buf[strlen (buf) - 1]\<close> on the empty string\<close>
  | ArgvOverflow nat  \<comment> \<open>write to \<open>argv[i]\<close> with \<open>i\<close> outside the caller's array\<close>
  | NullDeref         \<comment> \<open>dereference of a null \<open>argv\<close> entry\<close>

type_synonym argv = "string option list"

subsection \<open>The line parser\<close>

text \<open>The characters of a C string stop at the first NUL; \<open>strcpy\<close> copies those.\<close>

definition c_str :: "string \<Rightarrow> string" where
  "c_str s = takeWhile (\<lambda>c. c \<noteq> NUL) s"

text \<open>\<^verbatim>\<open>while (*buf && (*buf == ' ')) buf++;\<close>\<close>

fun skip_spaces :: "string \<Rightarrow> string" where
  "skip_spaces [] = []"
| "skip_spaces (c # cs) = (if c = SPACE then skip_spaces cs else c # cs)"

text \<open>
  \<open>strchr buf c\<close>: \<open>None\<close> is the null pointer; \<open>Some (pre, post)\<close> is a pointer to the
  first \<open>c\<close> in \<open>buf\<close>, with \<open>pre\<close> the characters before it and \<open>post\<close> the characters
  after it.
\<close>

fun strchr :: "string \<Rightarrow> char \<Rightarrow> (string \<times> string) option" where
  "strchr [] c = None"
| "strchr (x # xs) c =
     (if x = c then Some ([], xs)
      else (case strchr xs c of None \<Rightarrow> None | Some (pre, post) \<Rightarrow> Some (x # pre, post)))"

text \<open>
  The delimiter search done before the loop and at the end of each iteration:
  \<^verbatim>\<open>if (*buf == '\'') { buf++; delim = strchr (buf, '\''); } else delim = strchr (buf, ' ');\<close>
  The result pairs the token that starts at (the advanced) \<open>buf\<close> and ends at \<open>delim\<close>
  with the position \<open>delim + 1\<close>.
\<close>

definition find_delim :: "string \<Rightarrow> (string \<times> string) option" where
  "find_delim buf =
     (case buf of
        [] \<Rightarrow> strchr buf SPACE
      | c # rest \<Rightarrow> if c = QUOTE then strchr rest QUOTE else strchr buf SPACE)"

text \<open>A store \<open>argv[i] = v\<close> into the caller's array, and a load of \<open>argv[i]\<close>.\<close>

definition argv_store :: "argv \<Rightarrow> nat \<Rightarrow> string option \<Rightarrow> fault + argv" where
  "argv_store av i v = (if i < length av then Inr (av[i := v]) else Inl (ArgvOverflow i))"

definition argv_load :: "argv \<Rightarrow> nat \<Rightarrow> fault + string option" where
  "argv_load av i = (if i < length av then Inr (av ! i) else Inl (ArgvOverflow i))"

lemma strchr_length: "strchr s c = Some (pre, post) \<Longrightarrow> length post < length s"
proof (induction s arbitrary: pre)
  case Nil
  then show ?case by simp
next
  case (Cons x xs)
  then show ?case by (fastforce split: if_splits option.splits)
qed

lemma skip_spaces_length: "length (skip_spaces s) \<le> length s"
  by (induction s) auto

lemma find_delim_length:
  assumes "find_delim buf = Some (tok, rest)"
  shows "length rest < length buf"
proof (cases buf)
  case Nil
  with assms show ?thesis by (simp add: find_delim_def)
next
  case (Cons c cs)
  show ?thesis
  proof (cases "c = QUOTE")
    case True
    with Cons assms have "strchr cs QUOTE = Some (tok, rest)"
      by (simp add: find_delim_def)
    then show ?thesis
      using strchr_length [of cs QUOTE tok rest] Cons by simp
  next
    case False
    with Cons assms have "strchr buf SPACE = Some (tok, rest)"
      by (simp add: find_delim_def)
    then show ?thesis
      using strchr_length [of buf SPACE tok rest] by simp
  qed
qed

text \<open>
  The loop \<^verbatim>\<open>while (delim) { argv[argc++] = buf; *delim = '\0'; buf = delim + 1; ... }\<close>,
  entered with \<open>buf\<close> at the start of the next token.
\<close>

function build_argv :: "string \<Rightarrow> argv \<Rightarrow> nat \<Rightarrow> fault + (argv \<times> nat)" where
  "build_argv buf av argc =
     (case find_delim buf of
        None \<Rightarrow> Inr (av, argc)
      | Some (tok, rest) \<Rightarrow>
          (case argv_store av argc (Some tok) of
             Inl e \<Rightarrow> Inl e
           | Inr av' \<Rightarrow> build_argv (skip_spaces rest) av' (argc + 1)))"
  by pat_completeness auto
termination
proof (relation "measure (\<lambda>(buf, av, argc). length buf)")
  show "wf (measure (\<lambda>(buf, av, argc). length buf))" by simp
next
  fix buf :: string and av :: argv and argc :: nat and x2 x y and av' :: argv
  assume "find_delim buf = Some x2" and "(x, y) = x2"
  then have "length y < length buf" using find_delim_length [of buf x y] by simp
  moreover have "length (skip_spaces y) \<le> length y" by (rule skip_spaces_length)
  ultimately show "((skip_spaces y, av', argc + 1), buf, av, argc)
      \<in> measure (\<lambda>(buf, av, argc). length buf)" by simp
qed

declare build_argv.simps [simp del]

text \<open>\<open>*argv[argc - 1] == '&'\<close>: the first character of the string, NUL when it is empty.\<close>

definition starts_with_amp :: "string \<Rightarrow> bool" where
  "starts_with_amp tok = (case tok of [] \<Rightarrow> False | c # _ \<Rightarrow> c = AMP)"

text \<open>
  \<open>parseline cmdline av\<close>, with \<open>av\<close> the contents of the caller's array on entry.
  The result is the returned \<open>int\<close> and the array on exit.
\<close>

definition parseline :: "string \<Rightarrow> argv \<Rightarrow> fault + (int \<times> argv)" where
  "parseline cmdline av =
     (let line = c_str cmdline in
      if MAXLINE \<le> length line then Inl LineOverflow
      else if line = [] then Inl LineUnderflow
      else
        (case build_argv (skip_spaces (butlast line @ [SPACE])) av 0 of
           Inl e \<Rightarrow> Inl e
         | Inr (av1, argc) \<Rightarrow>
             (case argv_store av1 argc None of
                Inl e \<Rightarrow> Inl e
              | Inr av2 \<Rightarrow>
                  if argc = 0 then Inr (1, av2)
                  else
                    (case argv_load av2 (argc - 1) of
                       Inl e \<Rightarrow> Inl e
                     | Inr None \<Rightarrow> Inl NullDeref
                     | Inr (Some tok) \<Rightarrow>
                         if starts_with_amp tok
                         then (case argv_store av2 (argc - 1) None of
                                 Inl e \<Rightarrow> Inl e
                               | Inr av3 \<Rightarrow> Inr (1, av3))
                         else Inr (0, av2)))))"

text \<open>
  The argument vector as its readers (\<open>execvp\<close>, \<open>eval\<close>) see it: the entries before
  the first null pointer.
\<close>

definition argv_tokens :: "argv \<Rightarrow> string list" where
  "argv_tokens av = map the (takeWhile (\<lambda>p. p \<noteq> None) av)"

subsection \<open>The shell process and its environment\<close>

datatype signal = SIGINT | SIGQUIT | SIGTSTP | SIGCHLD | SIGCONT

text \<open>
  The status word that \<open>waitpid\<close> fills in, read through \<open>WIFSIGNALED\<close> and \<open>WTERMSIG\<close>.
  The shell calls \<open>waitpid\<close> without \<open>WUNTRACED\<close>, so only children that have
  terminated are reported: by \<open>exit\<close>, or killed by a signal.
\<close>

datatype wstatus = WEXITED int | WSIGNALED signal

text \<open>What the shell writes to its standard output, one value per \<open>printf\<close> call.\<close>

datatype out =
    BgJob int string              \<comment> \<open>\<^verbatim>\<open>"(%d) %s"\<close>, pid and command line\<close>
  | JobTerminated int signal      \<comment> \<open>\<^verbatim>\<open>"Job (%d) terminated by signal %d\n"\<close>\<close>
  | JobStopped int signal         \<comment> \<open>\<^verbatim>\<open>"Job (%d) stopped by signal %d\n"\<close>\<close>
  | ForkError                     \<comment> \<open>\<^verbatim>\<open>"fork error (%s) -- exiting\n"\<close>\<close>
  | CommandNotFound "string option" \<comment> \<open>\<^verbatim>\<open>"%s: Command not found\n"\<close>\<close>
  | SigquitNotice                 \<comment> \<open>\<^verbatim>\<open>"Terminating after receipt of SIGQUIT signal\n"\<close>\<close>

text \<open>
  The history of one run, kept beside the program's variables: the mask changes, the
  fork, the store of the child's pid, and every run of a handler. The values that an
  event carries are read from the state of the process when it is logged.
\<close>

datatype event =
    EvBlock                       \<comment> \<open>\<open>sigprocmask (SIG_BLOCK, &mask, &prev)\<close> in \<open>eval\<close>\<close>
  | EvFork int "signal set"       \<comment> \<open>\<open>fork\<close>: its result, and the signal mask of the process then\<close>
  | EvRecord int "signal set"     \<comment> \<open>after \<open>g_runningPid = pid\<close>: the value of \<open>g_runningPid\<close> and the mask\<close>
  | EvSuspend                     \<comment> \<open>\<open>sigsuspend\<close> is entered\<close>
  | EvResume                      \<comment> \<open>\<open>sigsuspend\<close> returns\<close>
  | EvRestore                     \<comment> \<open>\<open>sigprocmask (SIG_SETMASK, &prev, NULL)\<close> in \<open>eval\<close>\<close>
  | EvHandler signal              \<comment> \<open>the handler of the signal starts\<close>

text \<open>
  What the operating system does to the shell from outside: it raises a signal
  (SIGCHLD, for one, when a child stops), or a child terminates: it becomes
  collectable by \<open>waitpid\<close> and SIGCHLD is raised.
\<close>

datatype arrival = Raise signal | ChildExit int wstatus

text \<open>
  The two tracking variables of shell.c, the effects of the shell on the outside
  (\<open>stdout\<close>, \<open>kills\<close>), and the operating system's view of the process: its signal
  mask, its pending signals, the children that \<open>waitpid\<close> can collect, \<open>inbox\<close>,
  the arrivals still to come, one batch for each point where the process can be
  interrupted, and \<open>sigorder\<close>, for each delivery to come the order in which the
  kernel delivers the signals that are pending together. POSIX leaves that order
  unspecified: every value of the field is a possible run.
\<close>

record sys =
  g_runningPid :: int
  g_suspendedPid :: int
  stdout :: "out list"
  kills :: "(int \<times> signal) list"
  sigmask :: "signal set"
  sigpend :: "signal set"
  zombies :: "(int \<times> wstatus) list"
  inbox :: "arrival list list"
  sigorder :: "signal list list"
  trace :: "event list"

text \<open>
  How a piece of code ends: it returns, the process exits (\<open>exit (n)\<close>), it waits for
  a signal that never arrives, the process image is replaced (a successful \<open>execvp\<close>
  of the given argument vector), or it reads or writes outside an array.
\<close>

datatype 'a outcome =
    Returned 'a sys
  | Exited int sys
  | Blocked sys
  | Execed "string list" sys
  | Faulted fault

fun then_do :: "'a outcome \<Rightarrow> ('a \<Rightarrow> sys \<Rightarrow> 'b outcome) \<Rightarrow> 'b outcome" where
  "then_do (Returned a s) f = f a s"
| "then_do (Exited n s) f = Exited n s"
| "then_do (Blocked s) f = Blocked s"
| "then_do (Execed a s) f = Execed a s"
| "then_do (Faulted e) f = Faulted e"

definition printf :: "out \<Rightarrow> sys \<Rightarrow> sys" where
  "printf m s = s\<lparr>stdout := stdout s @ [m]\<rparr>"

definition kill :: "int \<Rightarrow> signal \<Rightarrow> sys \<Rightarrow> sys" where
  "kill pid sig s = s\<lparr>kills := kills s @ [(pid, sig)]\<rparr>"

definition logged :: "event \<Rightarrow> sys \<Rightarrow> sys" where
  "logged e s = s\<lparr>trace := trace s @ [e]\<rparr>"

text \<open>The entry of the history for a store into \<open>g_runningPid\<close> that has just been done.\<close>

definition recorded :: "sys \<Rightarrow> sys" where
  "recorded s = logged (EvRecord (g_runningPid s) (sigmask s)) s"

subsection \<open>makefg and the signal handlers\<close>

definition makefg :: "sys \<Rightarrow> sys" where
  "makefg s =
     (let s1 = (if g_suspendedPid s \<noteq> 0 then kill (- g_suspendedPid s) SIGCONT s else s);
          temp = g_runningPid s1
      in s1\<lparr>g_runningPid := g_suspendedPid s1, g_suspendedPid := temp\<rparr>)"

definition sigint_handler :: "sys \<Rightarrow> sys" where
  "sigint_handler s =
     (if g_runningPid s = 0 then s else kill (- g_runningPid s) SIGINT s)"

definition sigtstp_handler :: "sys \<Rightarrow> sys" where
  "sigtstp_handler s =
     (if g_runningPid s = 0 then s
      else makefg (kill (- g_runningPid s) SIGTSTP
                     (printf (JobStopped (g_runningPid s) SIGTSTP) s)))"

definition sigquit_handler :: "sys \<Rightarrow> unit outcome" where
  "sigquit_handler s = Exited 1 (printf SigquitNotice s)"

text \<open>
  \<open>waitpid (-1, &status, WNOHANG)\<close>: the pid and status of the next collectable child,
  or a value that is not positive (0 or -1) when there is none.
\<close>

definition waitpid_nohang :: "sys \<Rightarrow> int \<times> wstatus option \<times> sys" where
  "waitpid_nohang s =
     (case zombies s of
        [] \<Rightarrow> (0, None, s)
      | (pid, status) # zs \<Rightarrow> (pid, Some status, s\<lparr>zombies := zs\<rparr>))"

lemma waitpid_nohang_length:
  "waitpid_nohang s = (pid, status, s1) \<Longrightarrow> 0 < pid \<Longrightarrow> length (zombies s1) < length (zombies s)"
  by (auto simp: waitpid_nohang_def split: list.splits)

text \<open>The body of the loop of \<open>sigchld_handler\<close>, for one collected child.\<close>

definition reaped :: "int \<Rightarrow> wstatus option \<Rightarrow> sys \<Rightarrow> sys" where
  "reaped pid status s =
     (if g_runningPid s = pid
      then (if status = Some (WSIGNALED SIGINT) then printf (JobTerminated pid SIGINT) s else s)
             \<lparr>g_runningPid := 0\<rparr>
      else s)"

lemma zombies_reaped [simp]: "zombies (reaped pid status s) = zombies s"
  by (simp add: reaped_def printf_def)

function sigchld_handler :: "sys \<Rightarrow> sys" where
  "sigchld_handler s =
     (case waitpid_nohang s of
        (pid, status, s1) \<Rightarrow> if 0 < pid then sigchld_handler (reaped pid status s1) else s1)"
  by pat_completeness auto
termination
proof (relation "measure (\<lambda>s. length (zombies s))")
  show "wf (measure (\<lambda>s. length (zombies s)))" by simp
next
  fix s :: sys and y pid and status :: "wstatus option" and s1 :: sys
  assume "(pid, y) = waitpid_nohang s" and "(status, s1) = y" and "0 < pid"
  then have "waitpid_nohang s = (pid, status, s1)" by simp
  then have "length (zombies s1) < length (zombies s)"
    using \<open>0 < pid\<close> by (rule waitpid_nohang_length)
  then show "(reaped pid status s1, s) \<in> measure (\<lambda>s. length (zombies s))" by simp
qed

declare sigchld_handler.simps [simp del]

subsection \<open>Signal delivery\<close>

text \<open>
  The dispositions that \<open>main\<close> installs with \<open>Signal\<close>: a handler for SIGINT, SIGTSTP,
  SIGCHLD and SIGQUIT. SIGCONT keeps its default action, which does nothing to a
  running process. A handler runs to its end before anything else happens.
\<close>

fun dispatch :: "signal \<Rightarrow> sys \<Rightarrow> unit outcome" where
  "dispatch SIGINT s = Returned () (sigint_handler (logged (EvHandler SIGINT) s))"
| "dispatch SIGTSTP s = Returned () (sigtstp_handler (logged (EvHandler SIGTSTP) s))"
| "dispatch SIGCHLD s = Returned () (sigchld_handler (logged (EvHandler SIGCHLD) s))"
| "dispatch SIGQUIT s = sigquit_handler (logged (EvHandler SIGQUIT) s)"
| "dispatch SIGCONT s = Returned () s"

definition has_handler :: "signal \<Rightarrow> bool" where
  "has_handler sig = (sig \<noteq> SIGCONT)"

text \<open>A raised signal stays pending while it is blocked; otherwise it is delivered.\<close>

definition raise_signal :: "signal \<Rightarrow> sys \<Rightarrow> unit outcome" where
  "raise_signal sig s =
     (if sig \<in> sigmask s then Returned () (s\<lparr>sigpend := insert sig (sigpend s)\<rparr>)
      else dispatch sig s)"

fun signal_of :: "arrival \<Rightarrow> signal" where
  "signal_of (Raise sig) = sig"
| "signal_of (ChildExit pid status) = SIGCHLD"

fun arrive :: "arrival \<Rightarrow> sys \<Rightarrow> unit outcome" where
  "arrive (Raise sig) s = raise_signal sig s"
| "arrive (ChildExit pid status) s =
     raise_signal SIGCHLD (s\<lparr>zombies := zombies s @ [(pid, status)]\<rparr>)"

fun arrive_all :: "arrival list \<Rightarrow> sys \<Rightarrow> unit outcome" where
  "arrive_all [] s = Returned () s"
| "arrive_all (a # as) s = then_do (arrive a s) (\<lambda>_ s'. arrive_all as s')"

text \<open>
  A point between two statements of the main flow: the next batch of arrivals, if
  any, happens there.
\<close>

definition async :: "sys \<Rightarrow> unit outcome" where
  "async s = (case inbox s of [] \<Rightarrow> Returned () s | b # bs \<Rightarrow> arrive_all b (s\<lparr>inbox := bs\<rparr>))"

definition all_signals :: "signal list" where
  "all_signals = [SIGTSTP, SIGCONT, SIGCHLD, SIGQUIT, SIGINT]"

text \<open>
  The order of a delivery is the kernel's choice, the head of \<open>sigorder\<close>, which
  the delivery consumes; the signals that it does not list come after, the higher
  signal number first.
\<close>

definition delivery_order :: "sys \<Rightarrow> signal list" where
  "delivery_order s =
     (let ord = (case sigorder s of [] \<Rightarrow> [] | ord # ords \<Rightarrow> ord)
      in remdups ord @ filter (\<lambda>sig. sig \<notin> set ord) all_signals)"

fun dispatch_all :: "signal list \<Rightarrow> sys \<Rightarrow> unit outcome" where
  "dispatch_all [] s = Returned () s"
| "dispatch_all (sig # sigs) s = then_do (dispatch sig s) (\<lambda>_ s'. dispatch_all sigs s')"

text \<open>After a change of the mask, the pending signals that are no longer blocked are delivered.\<close>

definition deliverable :: "sys \<Rightarrow> signal list" where
  "deliverable s = filter (\<lambda>sig. sig \<in> sigpend s \<and> sig \<notin> sigmask s) (delivery_order s)"

definition deliver_pending :: "sys \<Rightarrow> unit outcome" where
  "deliver_pending s =
     dispatch_all (deliverable s)
       (s\<lparr>sigpend := sigpend s - set (deliverable s), sigorder := tl (sigorder s)\<rparr>)"

text \<open>
  \<open>sigsuspend (&m)\<close>: the mask becomes \<open>m\<close>, and the call returns, with the old mask
  back, once a handler has run. With nothing deliverable pending, the process sleeps
  (\<open>pause\<close>) until a batch of arrivals runs a handler; if none ever does, it sleeps
  for ever.
\<close>

fun pause :: "arrival list list \<Rightarrow> sys \<Rightarrow> unit outcome" where
  "pause [] s = Blocked (s\<lparr>inbox := []\<rparr>)"
| "pause (b # bs) s =
     then_do (arrive_all b (s\<lparr>inbox := bs\<rparr>))
       (\<lambda>_ s'. if list_ex (\<lambda>a. has_handler (signal_of a) \<and> signal_of a \<notin> sigmask s) b
               then Returned () s' else pause bs s')"

definition sigsuspend :: "signal set \<Rightarrow> sys \<Rightarrow> unit outcome" where
  "sigsuspend m s =
     (let old = sigmask s;
          s1 = logged EvSuspend (s\<lparr>sigmask := m\<rparr>);
          woken = list_ex has_handler (deliverable s1)
      in then_do (deliver_pending s1) (\<lambda>_ s2.
         then_do (if woken then Returned () s2 else pause (inbox s2) s2) (\<lambda>_ s3.
         deliver_pending (logged EvResume (s3\<lparr>sigmask := old\<rparr>)))))"

subsection \<open>The foreground wait\<close>

text \<open>
  \<open>ends Q A m\<close>: if \<open>m\<close> returns, \<open>Q\<close> holds of its value and state; if it ends in
  another way with a state, \<open>A\<close> holds of that state.
\<close>

fun ends :: "('a \<Rightarrow> sys \<Rightarrow> bool) \<Rightarrow> (sys \<Rightarrow> bool) \<Rightarrow> 'a outcome \<Rightarrow> bool" where
  "ends Q A (Returned a s) = Q a s"
| "ends Q A (Exited n s) = A s"
| "ends Q A (Blocked s) = A s"
| "ends Q A (Execed a s) = A s"
| "ends Q A (Faulted e) = True"

lemma ends_then_do:
  assumes "ends Q A m" and "\<And>a s. Q a s \<Longrightarrow> ends Q' A (f a s)"
  shows "ends Q' A (then_do m f)"
  using assms by (cases m) auto

lemma ends_weaken:
  assumes "ends Q A m" and "\<And>a s. Q a s \<Longrightarrow> Q' a s" and "\<And>s. A s \<Longrightarrow> A' s"
  shows "ends Q' A' m"
  using assms by (cases m) auto

text \<open>The handlers leave the signal mask, the pending signals and the inbox alone.\<close>

definition os_same :: "sys \<Rightarrow> sys \<Rightarrow> bool" where
  "os_same s s' = (inbox s' = inbox s \<and> sigpend s' = sigpend s \<and> sigmask s' = sigmask s)"

lemma os_same_refl [simp]: "os_same s s" by (simp add: os_same_def)

lemma os_same_trans: "os_same s t \<Longrightarrow> os_same t u \<Longrightarrow> os_same s u"
  by (simp add: os_same_def)

lemma os_same_reaped: "os_same s (reaped pid status s)"
  by (simp add: os_same_def reaped_def printf_def)

lemma os_same_sigchld: "os_same s (sigchld_handler s)"
proof (induction s rule: sigchld_handler.induct)
  case (1 s)
  obtain pid status s1 where w: "waitpid_nohang s = (pid, status, s1)"
    by (cases "waitpid_nohang s") auto
  then have s1: "os_same s s1"
    by (auto simp: waitpid_nohang_def os_same_def split: list.splits)
  show ?case
  proof (cases "0 < pid")
    case True
    with 1 w have "os_same (reaped pid status s1) (sigchld_handler (reaped pid status s1))"
      by simp
    with s1 os_same_reaped [of s1 pid status] have "os_same s (sigchld_handler (reaped pid status s1))"
      by (blast intro: os_same_trans)
    with w True show ?thesis by (subst sigchld_handler.simps) simp
  next
    case False
    with w s1 show ?thesis by (subst sigchld_handler.simps) simp
  qed
qed

lemma os_same_makefg: "os_same s (makefg s)"
  by (simp add: os_same_def makefg_def kill_def Let_def)

lemma os_same_sigint: "os_same s (sigint_handler s)"
  by (simp add: os_same_def sigint_handler_def kill_def)

lemma os_same_sigtstp: "os_same s (sigtstp_handler s)"
  by (simp add: os_same_def sigtstp_handler_def makefg_def kill_def printf_def Let_def)

lemma os_same_logged: "os_same s (logged e s)"
  by (simp add: os_same_def logged_def)

lemma ends_dispatch_os: "ends (\<lambda>_. os_same s) (\<lambda>_. True) (dispatch sig s)"
proof (cases sig)
  case SIGINT
  then show ?thesis using os_same_trans [OF os_same_logged os_same_sigint] by simp
next
  case SIGQUIT
  then show ?thesis by (simp add: sigquit_handler_def)
next
  case SIGTSTP
  then show ?thesis using os_same_trans [OF os_same_logged os_same_sigtstp] by simp
next
  case SIGCHLD
  then show ?thesis using os_same_trans [OF os_same_logged os_same_sigchld] by simp
next
  case SIGCONT
  then show ?thesis by simp
qed

lemma ends_dispatch_all_os: "ends (\<lambda>_. os_same s) (\<lambda>_. True) (dispatch_all sigs s)"
proof (induction sigs arbitrary: s)
  case Nil
  then show ?case by simp
next
  case (Cons sig sigs)
  show ?case
    unfolding dispatch_all.simps
  proof (rule ends_then_do [OF ends_dispatch_os])
    fix a :: unit and t :: sys assume "os_same s t"
    then show "ends (\<lambda>_. os_same s) (\<lambda>_. True) (dispatch_all sigs t)"
      using Cons [of t] by (auto intro: ends_weaken os_same_trans)
  qed
qed


lemma ends_arrive_unmasked:
  assumes "sigmask s = {}"
  shows "ends (\<lambda>_ t. inbox t = inbox s \<and> sigpend t = sigpend s \<and> sigmask t = {}) (\<lambda>_. True) (arrive a s)"
proof (cases a)
  case (Raise sig)
  with assms show ?thesis
    using ends_dispatch_os [of s sig]
    by (auto simp: raise_signal_def os_same_def elim: ends_weaken)
next
  case (ChildExit pid status)
  with assms show ?thesis
    using ends_dispatch_os [of "s\<lparr>zombies := zombies s @ [(pid, status)]\<rparr>" SIGCHLD]
    by (auto simp: raise_signal_def os_same_def elim!: ends_weaken)
qed

lemma ends_arrive_all_unmasked:
  assumes "sigmask s = {}"
  shows "ends (\<lambda>_ t. inbox t = inbox s \<and> sigpend t = sigpend s \<and> sigmask t = {}) (\<lambda>_. True) (arrive_all b s)"
  using assms
proof (induction b arbitrary: s)
  case Nil
  then show ?case by simp
next
  case (Cons a b)
  show ?case
    unfolding arrive_all.simps
  proof (rule ends_then_do [OF ends_arrive_unmasked [OF Cons.prems]])
    fix u :: unit and t :: sys assume t: "inbox t = inbox s \<and> sigpend t = sigpend s \<and> sigmask t = {}"
    then have "ends (\<lambda>_ t'. inbox t' = inbox t \<and> sigpend t' = sigpend t \<and> sigmask t' = {}) (\<lambda>_. True) (arrive_all b t)"
      using Cons.IH [of t] by simp
    with t show "ends (\<lambda>_ t. inbox t = inbox s \<and> sigpend t = sigpend s \<and> sigmask t = {}) (\<lambda>_. True) (arrive_all b t)"
      by (auto elim!: ends_weaken)
  qed
qed

lemma ends_pause_unmasked:
  assumes "sigmask s = {}"
  shows "ends (\<lambda>_ t. length (inbox t) < length bs \<and> sigpend t = sigpend s \<and> sigmask t = {}) (\<lambda>_. True) (pause bs s)"
  using assms
proof (induction bs arbitrary: s)
  case Nil
  then show ?case by simp
next
  case (Cons b bs)
  let ?s = "s\<lparr>inbox := bs\<rparr>"
  have m: "sigmask ?s = {}" using Cons.prems by simp
  show ?case
    unfolding pause.simps
  proof (rule ends_then_do [OF ends_arrive_all_unmasked [OF m]])
    fix u :: unit and t :: sys assume t: "inbox t = inbox ?s \<and> sigpend t = sigpend ?s \<and> sigmask t = {}"
    show "ends (\<lambda>_ t. length (inbox t) < length (b # bs) \<and> sigpend t = sigpend s \<and> sigmask t = {}) (\<lambda>_. True)
            (if list_ex (\<lambda>a. has_handler (signal_of a) \<and> signal_of a \<notin> sigmask s) b
             then Returned () t else pause bs t)"
    proof (cases "list_ex (\<lambda>a. has_handler (signal_of a) \<and> signal_of a \<notin> sigmask s) b")
      case True
      with t show ?thesis by simp
    next
      case False
      have "ends (\<lambda>_ t'. length (inbox t') < length bs \<and> sigpend t' = sigpend t \<and> sigmask t' = {}) (\<lambda>_. True) (pause bs t)"
        using Cons.IH [of t] t by simp
      with False t show ?thesis by (auto elim!: ends_weaken)
    qed
  qed
qed

lemma set_all_signals: "sig \<in> set all_signals"
  by (cases sig) (simp_all add: all_signals_def)

lemma set_delivery_order: "sig \<in> set (delivery_order s)"
  using set_all_signals by (auto simp: delivery_order_def Let_def)

lemma deliverable_unmasked:
  "sigmask s = {} \<Longrightarrow> set (deliverable s) = sigpend s"
  using set_delivery_order by (auto simp: deliverable_def)

lemma deliverable_none: "sigpend s = {} \<Longrightarrow> deliverable s = []"
  by (simp add: deliverable_def)

lemma ends_deliver_pending_unmasked:
  assumes "sigmask s = {}"
  shows "ends (\<lambda>_ t. inbox t = inbox s \<and> sigpend t = {} \<and> sigmask t = {}) (\<lambda>_. True) (deliver_pending s)"
  unfolding deliver_pending_def
  using ends_dispatch_all_os [of "s\<lparr>sigpend := sigpend s - set (deliverable s),
                                     sigorder := tl (sigorder s)\<rparr>" "deliverable s"]
    deliverable_unmasked [OF assms] assms
  by (auto simp: os_same_def elim!: ends_weaken)

text \<open>
  Each return of \<open>sigsuspend\<close> has consumed a pending signal or a batch of arrivals,
  so the loop of \<open>waitfg\<close> ends: it returns, or it is blocked for ever.
\<close>

definition wait_measure :: "sys \<Rightarrow> nat" where
  "wait_measure s =
     2 * length (inbox s) +
     (if \<exists>sig \<in> sigpend s. has_handler sig then 1 else 0)"

lemma sigsuspend_progress:
  "ends (\<lambda>_ t. wait_measure t < wait_measure s) (\<lambda>_. True) (sigsuspend {} s)"
proof -
  let ?s1 = "logged EvSuspend (s\<lparr>sigmask := {}\<rparr>)"
  let ?woken = "list_ex has_handler (deliverable ?s1)"
  have m1: "sigmask ?s1 = {}" by (simp add: logged_def)
  have "set (deliverable ?s1) = sigpend s"
    using deliverable_unmasked [OF m1] by (simp add: logged_def)
  then have w: "?woken = (\<exists>sig \<in> sigpend s. has_handler sig)"
    by (simp add: list_ex_iff)
  have i1: "inbox ?s1 = inbox s" by (simp add: logged_def)
  show ?thesis
    unfolding sigsuspend_def Let_def
  proof (rule ends_then_do [OF ends_deliver_pending_unmasked [OF m1]])
    fix u :: unit and s2 :: sys assume s2: "inbox s2 = inbox ?s1 \<and> sigpend s2 = {} \<and> sigmask s2 = {}"
    have "ends (\<lambda>_ t. (if ?woken then inbox t = inbox s else length (inbox t) < length (inbox s))
                        \<and> sigpend t = {}) (\<lambda>_. True)
            (if ?woken then Returned () s2 else pause (inbox s2) s2)"
    proof (cases ?woken)
      case True
      with s2 i1 show ?thesis by simp
    next
      case False
      have "ends (\<lambda>_ t. length (inbox t) < length (inbox s2) \<and> sigpend t = sigpend s2 \<and> sigmask t = {}) (\<lambda>_. True) (pause (inbox s2) s2)"
        using ends_pause_unmasked [of s2 "inbox s2"] s2 by simp
      with False s2 i1 show ?thesis by (auto elim!: ends_weaken)
    qed
    then show "ends (\<lambda>_ t. wait_measure t < wait_measure s) (\<lambda>_. True)
           (then_do (if ?woken then Returned () s2 else pause (inbox s2) s2)
             (\<lambda>_ s3. deliver_pending (logged EvResume (s3\<lparr>sigmask := sigmask s\<rparr>))))"
    proof (rule ends_then_do)
      fix u :: unit and s3 :: sys
      assume s3: "(if ?woken then inbox s3 = inbox s else length (inbox s3) < length (inbox s)) \<and> sigpend s3 = {}"
      let ?s4 = "logged EvResume (s3\<lparr>sigmask := sigmask s\<rparr>)"
      have "deliverable ?s4 = []" using s3 by (simp add: deliverable_def logged_def)
      then have "deliver_pending ?s4 =
          Returned () (?s4\<lparr>sigpend := sigpend ?s4, sigorder := tl (sigorder ?s4)\<rparr>)"
        by (simp add: deliver_pending_def)
      moreover have "wait_measure (?s4\<lparr>sigpend := sigpend ?s4, sigorder := tl (sigorder ?s4)\<rparr>)
                       < wait_measure s"
        using s3 w by (auto simp: wait_measure_def logged_def split: if_splits)
      ultimately show "ends (\<lambda>_ t. wait_measure t < wait_measure s) (\<lambda>_. True) (deliver_pending ?s4)"
        by simp
    qed
  qed
qed

lemma then_do_cong [fundef_cong]:
  assumes "m = m'" and "\<And>a s. m' = Returned a s \<Longrightarrow> f a s = f' a s"
  shows "then_do m f = then_do m' f'"
  using assms by (cases m') auto

text \<open>\<^verbatim>\<open>sigemptyset (&prev); while (g_runningPid) sigsuspend (&prev);\<close>\<close>

function waitfg :: "sys \<Rightarrow> unit outcome" where
  "waitfg s =
     (if g_runningPid s \<noteq> 0 then then_do (sigsuspend {} s) (\<lambda>_ s'. waitfg s')
      else Returned () s)"
  by pat_completeness auto
termination
proof (relation "measure wait_measure")
  show "wf (measure wait_measure)" by simp
next
  fix s :: sys and a :: unit and s' :: sys
  assume "sigsuspend {} s = Returned a s'"
  then show "(s', s) \<in> measure wait_measure"
    using sigsuspend_progress [of s] by simp
qed

declare waitfg.simps [simp del]

subsection \<open>The built-in dispatcher and the launcher\<close>

definition builtin_cmd :: "argv \<Rightarrow> sys \<Rightarrow> int outcome" where
  "builtin_cmd arg s =
     (case argv_load arg 0 of
        Inl e \<Rightarrow> Faulted e
      | Inr None \<Rightarrow> Faulted NullDeref
      | Inr (Some a0) \<Rightarrow>
          if a0 = ''quit'' then Exited 0 s
          else if a0 = ''fg'' then then_do (waitfg (makefg s)) (\<lambda>_ s'. Returned 1 s')
          else Returned 0 s)"

definition relayed :: "signal set" where
  "relayed = {SIGCHLD, SIGINT, SIGTSTP}"

text \<open>\<open>strtok (buf, "\n")\<close>: the first maximal run of characters other than newline.\<close>

definition strtok_nl :: "string \<Rightarrow> string option" where
  "strtok_nl buf =
     (case dropWhile (\<lambda>c. c = NEWLINE) buf of
        [] \<Rightarrow> None
      | c # cs \<Rightarrow> Some (takeWhile (\<lambda>c. c \<noteq> NEWLINE) (c # cs)))"

text \<open>
  Lines 223 to 256 of \<open>eval\<close>, for a command that is not built in. \<open>pid\<close> is what
  \<open>fork\<close> returns: negative on failure, 0 in the child, the child's pid in the parent;
  \<open>exec_ok\<close> tells whether \<open>execvp\<close> succeeds in the child. Signals may arrive between
  any two statements.
\<close>

definition eval_launch :: "string \<Rightarrow> int \<Rightarrow> argv \<Rightarrow> int \<Rightarrow> bool \<Rightarrow> sys \<Rightarrow> unit outcome" where
  "eval_launch buf bg av pid exec_ok s =
     then_do (async s) (\<lambda>_ s1.
     let prev = sigmask s1;
         s2 = logged EvBlock (s1\<lparr>sigmask := sigmask s1 \<union> relayed\<rparr>)
     in
     then_do (async s2) (\<lambda>_ s3.
     let s4 = logged (EvFork pid (sigmask s3)) s3 in
     if pid < 0 then Exited 1 (printf ForkError s4)
     else if pid = 0 then
       (let s5 = s4\<lparr>sigmask := prev, sigpend := {}\<rparr> in
        if exec_ok then Execed (argv_tokens av) s5
        else Exited 1 (printf (CommandNotFound (strtok_nl buf)) s5))
     else
     then_do (async s4) (\<lambda>_ s5.
     let s6 = recorded (s5\<lparr>g_runningPid := pid\<rparr>) in
     then_do (async s6) (\<lambda>_ s7.
     let s8 = (if bg \<noteq> 0 then (printf (BgJob pid buf) s7)\<lparr>g_runningPid := 0\<rparr> else s7) in
     then_do (async s8) (\<lambda>_ s9.
     then_do (waitfg s9) (\<lambda>_ s10.
     then_do (async s10) (\<lambda>_ s11.
     deliver_pending (logged EvRestore (s11\<lparr>sigmask := prev\<rparr>)))))))))"

text \<open>
  \<open>eval cmdline\<close>. \<open>garbage\<close> is the content of the uninitialised local array
  \<open>char* argv[MAXARGS]\<close>.
\<close>

definition eval :: "string \<Rightarrow> (nat \<Rightarrow> string option) \<Rightarrow> int \<Rightarrow> bool \<Rightarrow> sys \<Rightarrow> unit outcome" where
  "eval cmdline garbage pid exec_ok s =
     (let buf = c_str cmdline in
      if MAXLINE \<le> length buf then Faulted LineOverflow
      else
        (case parseline buf (map garbage [0..<MAXARGS]) of
           Inl e \<Rightarrow> Faulted e
         | Inr (bg, av) \<Rightarrow>
             (case argv_load av 0 of
                Inl e \<Rightarrow> Faulted e
              | Inr None \<Rightarrow> Returned () s
              | Inr (Some a0) \<Rightarrow>
                  then_do (builtin_cmd av s)
                    (\<lambda>r s1. if r \<noteq> 0 then Returned () s1
                            else eval_launch buf bg av pid exec_ok s1))))"

section \<open>Notions used in the properties\<close>

text \<open>A state with the given tracking variables and nothing else: for the examples.\<close>

definition tracking :: "int \<Rightarrow> int \<Rightarrow> sys" where
  "tracking r p =
     \<lparr>g_runningPid = r, g_suspendedPid = p, stdout = [], kills = [], sigmask = {},
      sigpend = {}, zombies = [], inbox = [], sigorder = [], trace = []\<rparr>"

text \<open>An uninitialised array that happens to hold null pointers: for the examples.\<close>

definition null_argv :: "nat \<Rightarrow> string option" where
  "null_argv i = None"

text \<open>
  The operations on a tracked job \<open>p\<close>: the terminal-stop handler runs; \<open>fg\<close> resumes
  (the \<open>makefg\<close> call of \<open>builtin_cmd\<close>); the job ends with some status and
  \<open>sigchld_handler\<close> reaps it.
\<close>

datatype job_op = Stop | Resume | Terminate wstatus

fun job_step :: "int \<Rightarrow> job_op \<Rightarrow> sys \<Rightarrow> sys" where
  "job_step p Stop s = sigtstp_handler s"
| "job_step p Resume s = makefg s"
| "job_step p (Terminate status) s = sigchld_handler (s\<lparr>zombies := zombies s @ [(p, status)]\<rparr>)"

text \<open>The states passed through by a sequence of operations, the first one included.\<close>

fun job_states :: "int \<Rightarrow> job_op list \<Rightarrow> sys \<Rightarrow> sys list" where
  "job_states p [] s = [s]"
| "job_states p (op # ops) s = s # job_states p ops (job_step p op s)"

text \<open>The two slots do not hold the same process-group id, unless both are empty (0).\<close>

definition exclusive :: "sys \<Rightarrow> bool" where
  "exclusive s = (g_runningPid s = 0 \<or> g_runningPid s \<noteq> g_suspendedPid s)"

text \<open>The tokens that the loop of \<open>parseline\<close> finds, in order, with no array to hold them.\<close>

function tokens :: "string \<Rightarrow> string list" where
  "tokens buf =
     (case find_delim buf of
        None \<Rightarrow> []
      | Some (tok, rest) \<Rightarrow> tok # tokens (skip_spaces rest))"
  by pat_completeness auto

termination
proof (relation "measure length")
  show "wf (measure length)" by simp
next
  fix buf :: string and x2 x y
  assume "find_delim buf = Some x2" and "(x, y) = x2"
  then have "length y < length buf" using find_delim_length [of buf x y] by simp
  moreover have "length (skip_spaces y) \<le> length y" by (rule skip_spaces_length)
  ultimately show "(skip_spaces y, buf) \<in> measure length" by simp
qed

declare tokens.simps [simp del]

text \<open>The tokens of a line: the last character is overwritten with a space first.\<close>

definition raw_tokens :: "string \<Rightarrow> string list" where
  "raw_tokens cmdline = tokens (skip_spaces (butlast (c_str cmdline) @ [SPACE]))"

text \<open>The result of \<open>parseline\<close> as its caller reads it: the flag and the argument vector.\<close>

definition parsed :: "string \<Rightarrow> argv \<Rightarrow> fault + (int \<times> string list)" where
  "parsed cmdline av =
     (case parseline cmdline av of
        Inl e \<Rightarrow> Inl e
      | Inr (bg, av') \<Rightarrow> Inr (bg, argv_tokens av'))"

text \<open>The white-space characters of C (\<open>isspace\<close> of ctype.h, in the C locale).\<close>

definition isspace :: "char \<Rightarrow> bool" where
  "isspace c = (c \<in> {SPACE, CHR 0x09, NEWLINE, CHR 0x0B, CHR 0x0C, CHR 0x0D})"

text \<open>
  A word of a command line as the user writes it: plain, or enclosed in single
  quotes. \<open>render\<close> is its text on the line, \<open>denotes\<close> the token it stands for.
\<close>

datatype word = Plain string | Quoted string

fun render :: "word \<Rightarrow> string" where
  "render (Plain t) = t"
| "render (Quoted q) = QUOTE # q @ [QUOTE]"

fun denotes :: "word \<Rightarrow> string" where
  "denotes (Plain t) = t"
| "denotes (Quoted q) = q"

fun is_plain :: "word \<Rightarrow> bool" where
  "is_plain (Plain t) = True"
| "is_plain (Quoted q) = False"

text \<open>
  A plain word is not empty and has no space and no quote character (it may hold other
  white space, a tab or a carriage return); the text between the quotes of a quoted
  word has no quote character. Neither contains NUL.
\<close>

fun well_formed :: "word \<Rightarrow> bool" where
  "well_formed (Plain t) = (t \<noteq> [] \<and> list_all (\<lambda>c. c \<noteq> SPACE \<and> c \<noteq> QUOTE \<and> c \<noteq> NUL) t)"
| "well_formed (Quoted q) = list_all (\<lambda>c. c \<noteq> QUOTE \<and> c \<noteq> NUL) q"

text \<open>Words separated by single spaces, and the line they make, ended by a newline.\<close>

fun join_words :: "string list \<Rightarrow> string" where
  "join_words [] = []"
| "join_words [x] = x"
| "join_words (x # y # ys) = x @ SPACE # join_words (y # ys)"

definition line_of :: "word list \<Rightarrow> string" where
  "line_of ws = join_words (map render ws) @ [NEWLINE]"

text \<open>
  The split of a string at the characters that satisfy \<open>d\<close>: the maximal runs of the
  other characters. \<open>cur\<close> is the run being read.
\<close>

fun split_at :: "(char \<Rightarrow> bool) \<Rightarrow> string \<Rightarrow> string \<Rightarrow> string list" where
  "split_at d cur [] = (if cur = [] then [] else [cur])"
| "split_at d cur (c # cs) =
     (if d c then (if cur = [] then split_at d [] cs else cur # split_at d [] cs)
      else split_at d (cur @ [c]) cs)"

text \<open>The white-space split of a string, after the specification's words.\<close>

definition whitespace_split :: "string \<Rightarrow> string list" where
  "whitespace_split s = split_at isspace [] s"

text \<open>The split of a string at its space characters only.\<close>

definition space_split :: "string \<Rightarrow> string list" where
  "space_split s = split_at (\<lambda>c. c = SPACE) [] s"

text \<open>Each word followed by a space: the buffer that the parser sees for a line of words.\<close>

definition spaced :: "word list \<Rightarrow> string" where
  "spaced ws = concat (map (\<lambda>w. render w @ [SPACE]) ws)"











section \<open>Properties\<close>

subsection \<open>The child-state-change handler\<close>

lemma sigchld_handler_no_zombies: "zombies s = [] \<Longrightarrow> sigchld_handler s = s"
  by (subst sigchld_handler.simps) (simp add: waitpid_nohang_def)

text \<open>
  C7. When \<open>sigchld_handler\<close> runs and no child is collectable (the first
  \<open>waitpid (-1, &status, WNOHANG)\<close> returns nothing positive), it returns the state it
  was given: \<open>g_runningPid\<close> and \<open>g_suspendedPid\<close> are unchanged and nothing is printed.
\<close>

theorem sigchld_handler_idle:
  "zombies s = [] \<Longrightarrow>
     sigchld_handler s = s \<and>
     g_runningPid (sigchld_handler s) = g_runningPid s \<and>
     g_suspendedPid (sigchld_handler s) = g_suspendedPid s \<and>
     stdout (sigchld_handler s) = stdout s"
  by (simp add: sigchld_handler_no_zombies)

theorem sigchld_handler_idle_witness:
  "zombies (tracking 7 3) = [] \<and> sigchld_handler (tracking 7 3) = tracking 7 3 \<and>
   g_runningPid (sigchld_handler (tracking 7 3)) = 7 \<and>
   g_suspendedPid (sigchld_handler (tracking 7 3)) = 3 \<and>
   stdout (sigchld_handler (tracking 7 3)) = []"
proof -
  have z: "zombies (tracking 7 3) = []" by (simp add: tracking_def)
  show ?thesis using z sigchld_handler_idle [OF z] by (simp add: tracking_def)
qed

subsection \<open>The terminal-stop handler with a job already suspended\<close>

lemma sigtstp_handler_swap:
  assumes "g_runningPid s \<noteq> 0" and "g_suspendedPid s \<noteq> 0"
  shows "sigtstp_handler s =
           s\<lparr>g_runningPid := g_suspendedPid s, g_suspendedPid := g_runningPid s,
             stdout := stdout s @ [JobStopped (g_runningPid s) SIGTSTP],
             kills := kills s @ [(- g_runningPid s, SIGTSTP), (- g_suspendedPid s, SIGCONT)]\<rparr>"
  using assms by (simp add: sigtstp_handler_def makefg_def kill_def printf_def Let_def)

text \<open>
  C9, as stated, fails: with job 20 in the foreground and job 10 suspended, the
  handler leaves 10 tracked, in the foreground slot.
\<close>

theorem sigtstp_second_stop_counterexample:
  "\<not> (g_runningPid (sigtstp_handler (tracking 20 10)) \<noteq> 10 \<and>
      g_suspendedPid (sigtstp_handler (tracking 20 10)) \<noteq> 10)"
  by (simp add: sigtstp_handler_def makefg_def kill_def printf_def tracking_def Let_def)

text \<open>
  C9, amended. When \<open>sigtstp_handler\<close> runs with a foreground job and another job
  recorded in \<open>g_suspendedPid\<close>, it exchanges the two slots: the stopped foreground
  job is recorded in \<open>g_suspendedPid\<close>, and the previously suspended job is sent
  SIGCONT and becomes \<open>g_runningPid\<close>; it is still tracked.
\<close>

theorem sigtstp_second_stop_swaps:
  assumes "g_runningPid s \<noteq> 0" and "g_suspendedPid s \<noteq> 0"
  shows "g_runningPid (sigtstp_handler s) = g_suspendedPid s \<and>
         g_suspendedPid (sigtstp_handler s) = g_runningPid s \<and>
         kills (sigtstp_handler s) =
           kills s @ [(- g_runningPid s, SIGTSTP), (- g_suspendedPid s, SIGCONT)] \<and>
         stdout (sigtstp_handler s) = stdout s @ [JobStopped (g_runningPid s) SIGTSTP]"
  by (simp add: sigtstp_handler_swap [OF assms])

theorem sigtstp_second_stop_swaps_witness:
  "g_runningPid (tracking 20 10) \<noteq> 0 \<and> g_suspendedPid (tracking 20 10) \<noteq> 0 \<and>
   g_runningPid (sigtstp_handler (tracking 20 10)) = 10 \<and>
   g_suspendedPid (sigtstp_handler (tracking 20 10)) = 20 \<and>
   kills (sigtstp_handler (tracking 20 10)) = [(- 20, SIGTSTP), (- 10, SIGCONT)] \<and>
   stdout (sigtstp_handler (tracking 20 10)) = [JobStopped 20 SIGTSTP]"
proof -
  have r: "g_runningPid (tracking 20 10) \<noteq> 0" and p: "g_suspendedPid (tracking 20 10) \<noteq> 0"
    by (simp_all add: tracking_def)
  show ?thesis using r p sigtstp_second_stop_swaps [OF r p] by (simp add: tracking_def)
qed

subsection \<open>The built-in dispatcher\<close>

text \<open>
  C5, as stated, fails for \<open>exit\<close>: \<open>builtin_cmd\<close> compares the first token with
  \<open>quit\<close> and \<open>fg\<close> only, so for \<open>exit\<close> it returns 0 and the shell goes on.
\<close>

theorem builtin_exit_counterexample:
  "builtin_cmd [Some ''exit'', None] (tracking 0 0) = Returned 0 (tracking 0 0) \<and>
   builtin_cmd [Some ''exit'', None] (tracking 0 0) \<noteq> Exited 0 (tracking 0 0)"
  by (simp add: builtin_cmd_def argv_load_def)

text \<open>
  C5, amended. For every command whose first token is \<open>quit\<close>, \<open>builtin_cmd\<close> ends
  the shell process at once with status 0 and the state it was given: no signal is
  sent and no child is waited for. A first token \<open>exit\<close> is not a built-in command:
  \<open>builtin_cmd\<close> returns 0 with the state unchanged, and control goes back to \<open>eval\<close>.
\<close>

theorem builtin_quit_exits:
  "builtin_cmd (Some ''quit'' # rest) s = Exited 0 s \<and>
   builtin_cmd (Some ''exit'' # rest) s = Returned 0 s"
  by (simp add: builtin_cmd_def argv_load_def)

theorem builtin_quit_exits_witness:
  "builtin_cmd [Some ''quit'', None] (tracking 5 0) = Exited 0 (tracking 5 0) \<and>
   kills (tracking 5 0) = [] \<and>
   builtin_cmd [Some ''exit'', None] (tracking 5 0) = Returned 0 (tracking 5 0)"
  using builtin_quit_exits [of "[None]" "tracking 5 0"] by (simp add: tracking_def)

subsection \<open>Exclusivity of the two tracking slots\<close>

lemma exclusive_makefg: "exclusive s \<Longrightarrow> exclusive (makefg s)"
  by (auto simp: exclusive_def makefg_def kill_def Let_def)

lemma exclusive_sigtstp: "exclusive s \<Longrightarrow> exclusive (sigtstp_handler s)"
  by (auto simp: exclusive_def sigtstp_handler_def makefg_def kill_def printf_def Let_def)

lemma exclusive_reaped: "exclusive s \<Longrightarrow> exclusive (reaped pid status s)"
  by (auto simp: exclusive_def reaped_def printf_def)

lemma exclusive_sigchld: "exclusive s \<Longrightarrow> exclusive (sigchld_handler s)"
proof (induction s rule: sigchld_handler.induct)
  case (1 s)
  obtain pid status s1 where w: "waitpid_nohang s = (pid, status, s1)"
    by (cases "waitpid_nohang s") auto
  then have s1: "exclusive s1"
    using "1.prems" by (auto simp: waitpid_nohang_def exclusive_def split: list.splits)
  show ?case
  proof (cases "0 < pid")
    case True
    with "1.IH" w s1 have "exclusive (sigchld_handler (reaped pid status s1))"
      by (simp add: exclusive_reaped)
    with w True show ?thesis by (subst sigchld_handler.simps) simp
  next
    case False
    with w s1 show ?thesis by (subst sigchld_handler.simps) simp
  qed
qed

lemma exclusive_job_step:
  assumes "exclusive s"
  shows "exclusive (job_step p op s)"
proof (cases op)
  case Stop
  with assms show ?thesis by (simp add: exclusive_sigtstp)
next
  case Resume
  with assms show ?thesis by (simp add: exclusive_makefg)
next
  case (Terminate status)
  have "exclusive (s\<lparr>zombies := zombies s @ [(p, status)]\<rparr>)"
    using assms by (simp add: exclusive_def)
  with Terminate show ?thesis by (simp add: exclusive_sigchld)
qed

text \<open>
  C1. From every state in which the two slots are exclusive (in particular the state
  after a launch, with the job in \<open>g_runningPid\<close> and \<open>g_suspendedPid\<close> empty), every
  sequence of stop, resume and terminate operations on the job passes only through
  states in which \<open>g_runningPid\<close> and \<open>g_suspendedPid\<close> are not both non-empty with
  the same process-group id.
\<close>

theorem slots_exclusive:
  "exclusive s \<Longrightarrow>
     list_all (\<lambda>t. \<not> (g_runningPid t \<noteq> 0 \<and> g_suspendedPid t \<noteq> 0 \<and>
                       g_runningPid t = g_suspendedPid t))
       (job_states p ops s)"
proof (induction ops arbitrary: s)
  case Nil
  then show ?case by (auto simp: exclusive_def)
next
  case (Cons op ops)
  from Cons.prems have "exclusive (job_step p op s)" by (rule exclusive_job_step)
  then have "list_all (\<lambda>t. \<not> (g_runningPid t \<noteq> 0 \<and> g_suspendedPid t \<noteq> 0 \<and>
                       g_runningPid t = g_suspendedPid t)) (job_states p ops (job_step p op s))"
    by (rule Cons.IH)
  with Cons.prems show ?case by (auto simp: exclusive_def)
qed

theorem slots_exclusive_witness:
  "exclusive (tracking 7 0) \<and>
   list_all (\<lambda>t. \<not> (g_runningPid t \<noteq> 0 \<and> g_suspendedPid t \<noteq> 0 \<and>
                       g_runningPid t = g_suspendedPid t))
     (job_states 7 [Stop, Resume, Stop, Terminate (WSIGNALED SIGQUIT), Resume, Terminate (WEXITED 0)]
        (tracking 7 0)) \<and>
   map (\<lambda>t. (g_runningPid t, g_suspendedPid t))
     (job_states 7 [Stop, Resume, Stop, Terminate (WSIGNALED SIGQUIT), Resume, Terminate (WEXITED 0)]
        (tracking 7 0)) =
     [(7, 0), (0, 7), (7, 0), (0, 7), (0, 7), (7, 0), (0, 0)]"
proof -
  have e: "exclusive (tracking 7 0)" by (simp add: exclusive_def tracking_def)
  have "map (\<lambda>t. (g_runningPid t, g_suspendedPid t))
     (job_states 7 [Stop, Resume, Stop, Terminate (WSIGNALED SIGQUIT), Resume, Terminate (WEXITED 0)]
        (tracking 7 0)) =
     [(7, 0), (0, 7), (7, 0), (0, 7), (0, 7), (7, 0), (0, 0)]"
    by (simp add: tracking_def sigtstp_handler_def makefg_def kill_def printf_def Let_def
        sigchld_handler.simps waitpid_nohang_def reaped_def)
  with e slots_exclusive [OF e, of 7 "[Stop, Resume, Stop, Terminate (WSIGNALED SIGQUIT), Resume, Terminate (WEXITED 0)]"]
  show ?thesis by simp
qed

subsection \<open>What the parser stores\<close>

lemma tokens_None: "find_delim buf = None \<Longrightarrow> tokens buf = []"
  by (subst tokens.simps) simp

lemma tokens_Some: "find_delim buf = Some (tok, rest) \<Longrightarrow> tokens buf = tok # tokens (skip_spaces rest)"
  by (subst tokens.simps) simp

lemma take_Suc_update: "i < length xs \<Longrightarrow> take (Suc i) (xs[i := x]) = take i xs @ [x]"
  by (simp add: take_Suc_conv_app_nth)

lemma build_argv_fits:
  "argc + length (tokens buf) \<le> length av \<Longrightarrow>
     build_argv buf av argc =
       Inr (take argc av @ map Some (tokens buf) @ drop (argc + length (tokens buf)) av,
            argc + length (tokens buf))"
proof (induction buf av argc rule: build_argv.induct)
  case (1 buf av argc)
  show ?case
  proof (cases "find_delim buf")
    case None
    then show ?thesis by (subst build_argv.simps) (simp add: tokens_None)
  next
    case (Some p)
    obtain tok rest where p: "p = (tok, rest)" by (cases p)
    with Some have t: "tokens buf = tok # tokens (skip_spaces rest)" by (simp add: tokens_Some)
    with "1.prems" have lt: "argc < length av" by simp
    then have st: "argv_store av argc (Some tok) = Inr (av[argc := Some tok])"
      by (simp add: argv_store_def)
    have "build_argv (skip_spaces rest) (av[argc := Some tok]) (argc + 1) =
            Inr (take (argc + 1) (av[argc := Some tok]) @ map Some (tokens (skip_spaces rest)) @
                   drop (argc + 1 + length (tokens (skip_spaces rest))) (av[argc := Some tok]),
                 argc + 1 + length (tokens (skip_spaces rest)))"
      using "1.IH" [OF Some p [symmetric] st] "1.prems" t by simp
    then have "build_argv (skip_spaces rest) (av[argc := Some tok]) (argc + 1) =
            Inr (take argc av @ map Some (tokens buf) @ drop (argc + length (tokens buf)) av,
                 argc + length (tokens buf))"
      using lt t by (simp add: take_Suc_update)
    with Some p st show ?thesis by (subst build_argv.simps) simp
  qed
qed

lemma build_argv_overflows:
  "argc \<le> length av \<Longrightarrow> length av < argc + length (tokens buf) \<Longrightarrow>
     build_argv buf av argc = Inl (ArgvOverflow (length av))"
proof (induction buf av argc rule: build_argv.induct)
  case (1 buf av argc)
  show ?case
  proof (cases "find_delim buf")
    case None
    with "1.prems" show ?thesis by (simp add: tokens_None)
  next
    case (Some p)
    obtain tok rest where p: "p = (tok, rest)" by (cases p)
    with Some have t: "tokens buf = tok # tokens (skip_spaces rest)" by (simp add: tokens_Some)
    show ?thesis
    proof (cases "argc < length av")
      case True
      then have st: "argv_store av argc (Some tok) = Inr (av[argc := Some tok])"
        by (simp add: argv_store_def)
      have "build_argv (skip_spaces rest) (av[argc := Some tok]) (argc + 1) =
              Inl (ArgvOverflow (length (av[argc := Some tok])))"
        using "1.IH" [OF Some p [symmetric] st] "1.prems" t True by simp
      with Some p st show ?thesis by (subst build_argv.simps) simp
    next
      case False
      with "1.prems" have "argc = length av" by simp
      then have "argv_store av argc (Some tok) = Inl (ArgvOverflow (length av))"
        by (simp add: argv_store_def)
      with Some p show ?thesis by (subst build_argv.simps) simp
    qed
  qed
qed

lemma argv_tokens_prefix: "argv_tokens (map Some ts @ None # rest) = ts"
  by (induction ts) (simp_all add: argv_tokens_def)

lemma c_str_id: "NUL \<notin> set s \<Longrightarrow> c_str s = s"
  by (auto simp: c_str_def takeWhile_eq_all_conv)

lemma store_after_prefix:
  "length ts < length av \<Longrightarrow>
     (map Some ts @ drop (length ts) av)[length ts := None] = map Some ts @ None # drop (Suc (length ts)) av"
  by (simp add: list_update_append Cons_nth_drop_Suc [symmetric])

lemma store_last_of_prefix:
  "ts \<noteq> [] \<Longrightarrow>
     (map Some ts @ None # rest)[length ts - 1 := None] = map Some (butlast ts) @ None # None # rest"
proof (induction ts rule: rev_induct)
  case Nil
  then show ?case by simp
next
  case (snoc t ts)
  have "(map Some ts @ Some t # None # rest)[length ts := None] = map Some ts @ None # None # rest"
    by (simp add: list_update_append)
  then show ?case by simp
qed

lemma parseline_array:
  assumes nul: "NUL \<notin> set line" and ne: "line \<noteq> []" and len: "length line < MAXLINE"
    and fit: "length (raw_tokens line) < length av"
  shows "parseline line av =
           Inr (if raw_tokens line = [] then (1, None # drop 1 av)
                else if starts_with_amp (last (raw_tokens line))
                then (1, map Some (butlast (raw_tokens line)) @ None # None #
                           drop (Suc (length (raw_tokens line))) av)
                else (0, map Some (raw_tokens line) @ None #
                           drop (Suc (length (raw_tokens line))) av))"
proof -
  let ?buf = "skip_spaces (butlast line @ [SPACE])"
  let ?ts = "raw_tokens line"
  let ?n = "length ?ts"
  let ?av2 = "map Some ?ts @ None # drop (Suc ?n) av"
  have c: "c_str line = line" using nul by (rule c_str_id)
  then have ts: "tokens ?buf = ?ts" by (simp add: raw_tokens_def)
  have b: "build_argv ?buf av 0 = Inr (map Some ?ts @ drop ?n av, ?n)"
    using build_argv_fits [of 0 ?buf av] fit ts by simp
  have s2: "argv_store (map Some ?ts @ drop ?n av) ?n None = Inr ?av2"
    using fit by (simp add: argv_store_def store_after_prefix)
  show ?thesis
  proof (cases "?ts = []")
    case True
    with c ne len b s2 show ?thesis by (simp add: parseline_def Let_def)
  next
    case False
    then have pos: "0 < ?n" by simp
    have ld: "argv_load ?av2 (?n - 1) = Inr (Some (last ?ts))"
      using False pos by (simp add: argv_load_def nth_append last_conv_nth)
    have s3: "argv_store ?av2 (?n - 1) None =
                Inr (map Some (butlast ?ts) @ None # None # drop (Suc ?n) av)"
      using pos store_last_of_prefix [OF False, of "drop (Suc ?n) av"]
      by (simp add: argv_store_def)
    from c ne len b s2 ld s3 False show ?thesis
      by (simp add: parseline_def Let_def)
  qed
qed

lemma parsed_result:
  assumes "NUL \<notin> set line" and "line \<noteq> []" and "length line < MAXLINE"
    and "length (raw_tokens line) < length av"
  shows "parsed line av =
           Inr (if raw_tokens line = [] then (1, [])
                else if starts_with_amp (last (raw_tokens line)) then (1, butlast (raw_tokens line))
                else (0, raw_tokens line))"
proof -
  have "argv_tokens (None # drop 1 av) = []"
    using argv_tokens_prefix [of "[]"] by simp
  moreover have "argv_tokens (map Some (butlast (raw_tokens line)) @ None # None #
                           drop (Suc (length (raw_tokens line))) av) = butlast (raw_tokens line)"
    by (rule argv_tokens_prefix)
  moreover have "argv_tokens (map Some (raw_tokens line) @ None #
                           drop (Suc (length (raw_tokens line))) av) = raw_tokens line"
    by (rule argv_tokens_prefix)
  ultimately show ?thesis
    using parseline_array [OF assms] by (simp add: parsed_def)
qed

lemma parseline_overflows:
  assumes nul: "NUL \<notin> set line" and ne: "line \<noteq> []" and len: "length line < MAXLINE"
    and big: "length av \<le> length (raw_tokens line)"
  shows "parseline line av = Inl (ArgvOverflow (length av))"
proof -
  let ?buf = "skip_spaces (butlast line @ [SPACE])"
  let ?ts = "raw_tokens line"
  have c: "c_str line = line" using nul by (rule c_str_id)
  then have ts: "tokens ?buf = ?ts" by (simp add: raw_tokens_def)
  show ?thesis
  proof (cases "length av = length ?ts")
    case True
    then have "build_argv ?buf av 0 = Inr (map Some ?ts @ drop (length ?ts) av, length ?ts)"
      using build_argv_fits [of 0 ?buf av] ts by simp
    moreover have "argv_store (map Some ?ts @ drop (length ?ts) av) (length ?ts) None =
        Inl (ArgvOverflow (length av))"
      using True by (simp add: argv_store_def)
    ultimately show ?thesis using c ne len by (simp add: parseline_def Let_def)
  next
    case False
    with big have "length av < 0 + length (tokens ?buf)" using ts by simp
    then have "build_argv ?buf av 0 = Inl (ArgvOverflow (length av))"
      by (intro build_argv_overflows) simp_all
    then show ?thesis using c ne len by (simp add: parseline_def Let_def)
  qed
qed

lemma skip_spaces_replicate: "skip_spaces (replicate n SPACE @ xs) = skip_spaces xs"
  by (induction n) simp_all

lemma raw_tokens_blank: "raw_tokens (replicate n SPACE @ [c]) = []" if "c \<noteq> NUL"
proof -
  have "c_str (replicate n SPACE @ [c]) = replicate n SPACE @ [c]"
    using that by (intro c_str_id) auto
  moreover have "skip_spaces (replicate n SPACE @ [SPACE]) = []"
    by (simp add: skip_spaces_replicate)
  ultimately show ?thesis
    by (simp add: raw_tokens_def tokens_None find_delim_def)
qed

lemma tokens_many: "tokens (concat (replicate n ''a '')) = replicate n ''a''"
proof (induction n)
  case 0
  then show ?case by (simp add: tokens_None find_delim_def)
next
  case (Suc n)
  have "skip_spaces (concat (replicate n ''a '')) = concat (replicate n ''a '')"
    by (cases n) simp_all
  moreover have "find_delim (''a '' @ concat (replicate n ''a '')) = Some (''a'', concat (replicate n ''a ''))"
    by (simp add: find_delim_def)
  ultimately show ?case using Suc by (simp add: tokens_Some)
qed

lemma concat_replicate_snoc: "concat (replicate n x) @ x = concat (replicate (Suc n) x)"
  by (induction n) simp_all

lemma raw_tokens_many:
  "raw_tokens (concat (replicate n ''a '') @ ''a'' @ [NEWLINE]) = replicate (Suc n) ''a''"
proof -
  have "NUL \<notin> set (concat (replicate n ''a '') @ ''a'' @ [NEWLINE])" by auto
  then have "c_str (concat (replicate n ''a '') @ ''a'' @ [NEWLINE]) = concat (replicate n ''a '') @ ''a'' @ [NEWLINE]"
    by (rule c_str_id)
  moreover have "butlast (concat (replicate n ''a '') @ ''a'' @ [NEWLINE]) @ [SPACE] = concat (replicate (Suc n) ''a '')"
    using concat_replicate_snoc [of n "''a ''"] by (simp add: butlast_append)
  moreover have "skip_spaces (concat (replicate (Suc n) ''a '')) = concat (replicate (Suc n) ''a '')"
    by simp
  ultimately show ?thesis
    by (simp only: raw_tokens_def tokens_many)
qed

lemma eval_blank:
  assumes "n + 1 < MAXLINE"
  shows "eval (replicate n SPACE @ [NEWLINE]) garbage pid exec_ok s = Returned () s"
proof -
  let ?line = "replicate n SPACE @ [NEWLINE]"
  let ?av = "map garbage [0..<MAXARGS]"
  have nul: "NUL \<notin> set ?line" by auto
  then have c: "c_str ?line = ?line" by (rule c_str_id)
  have r: "raw_tokens ?line = []" by (rule raw_tokens_blank) simp
  have "parseline ?line ?av = Inr (1, None # drop 1 ?av)"
    using parseline_array [OF nul, of ?av] assms r by (simp add: MAXARGS_def)
  moreover have "argv_load (None # drop 1 ?av) 0 = Inr None"
    by (simp add: argv_load_def)
  ultimately show ?thesis
    using c assms by (simp add: eval_def Let_def)
qed

subsection \<open>The flag returned for a blank line\<close>

text \<open>
  C10, as stated, fails for a line of white space that is not made of spaces: a tab
  followed by the newline is parsed as one token, and \<open>parseline\<close> returns 0.
\<close>

theorem blank_flag_counterexample:
  "list_all isspace [CHR 0x09, NEWLINE] \<and>
   parsed [CHR 0x09, NEWLINE] (replicate MAXARGS None) = Inr (0, [[CHR 0x09]])"
proof -
  have "raw_tokens [CHR 0x09, NEWLINE] = [[CHR 0x09]]"
    by (simp add: raw_tokens_def c_str_def tokens.simps find_delim_def)
  then show ?thesis
    using parsed_result [of "[CHR 0x09, NEWLINE]" "replicate MAXARGS None"]
    by (simp add: MAXLINE_def MAXARGS_def starts_with_amp_def isspace_def)
qed

text \<open>
  C10, amended. For every line that consists of space characters only, followed by
  the newline (the empty line included), and that fits the line buffer, \<open>parseline\<close>
  returns 1, the value it uses for a background request, and stores the null pointer
  in \<open>argv[0]\<close>: the argument vector is empty.
\<close>

theorem parseline_blank_returns_1:
  assumes "n + 1 < MAXLINE" and "0 < length av"
  shows "parseline (replicate n SPACE @ [NEWLINE]) av = Inr (1, None # drop 1 av) \<and>
         parsed (replicate n SPACE @ [NEWLINE]) av = Inr (1, [])"
proof -
  let ?line = "replicate n SPACE @ [NEWLINE]"
  have nul: "NUL \<notin> set ?line" by auto
  have r: "raw_tokens ?line = []" by (rule raw_tokens_blank) simp
  have "parseline ?line av = Inr (1, None # drop 1 av)"
    using parseline_array [OF nul, of av] assms r by simp
  moreover have "parsed ?line av = Inr (1, [])"
    using parsed_result [OF nul, of av] assms r by simp
  ultimately show ?thesis by simp
qed

theorem parseline_blank_returns_1_witness:
  "(3::nat) + 1 < MAXLINE \<and> 0 < length [Some ''x'', Some ''y''] \<and>
   parseline (''   '' @ [NEWLINE]) [Some ''x'', Some ''y''] = Inr (1, [None, Some ''y'']) \<and>
   parsed (''   '' @ [NEWLINE]) [Some ''x'', Some ''y''] = Inr (1, [])"
proof -
  have a: "(3::nat) + 1 < MAXLINE" by (simp add: MAXLINE_def)
  have b: "0 < length [Some ''x'', Some ''y'']" by simp
  have c: "replicate 3 SPACE = ''   ''" by (simp add: numeral_3_eq_3)
  show ?thesis using a b parseline_blank_returns_1 [OF a b] by (simp add: c)
qed

subsection \<open>The background flag\<close>

text \<open>
  C3, as stated, fails: \<open>parseline\<close> looks at the first character of the last token
  only. On the line \<open>a &b\<close> the last token is \<open>&b\<close>, not \<open>&\<close>, and yet it is removed
  and the flag is 1.
\<close>

theorem background_flag_counterexample:
  "raw_tokens (''a &b'' @ [NEWLINE]) = [''a'', ''&b''] \<and>
   last [''a'', ''&b''] \<noteq> ''&'' \<and>
   parsed (''a &b'' @ [NEWLINE]) (replicate MAXARGS None) = Inr (1, [''a''])"
proof -
  have r: "raw_tokens (''a &b'' @ [NEWLINE]) = [''a'', ''&b'']"
    by (simp add: raw_tokens_def c_str_def tokens.simps find_delim_def)
  have "parsed (''a &b'' @ [NEWLINE]) (replicate MAXARGS None) = Inr (1, [''a''])"
    using parsed_result [of "''a &b'' @ [NEWLINE]" "replicate MAXARGS None"] r
    by (simp add: MAXLINE_def MAXARGS_def starts_with_amp_def)
  with r show ?thesis by simp
qed

text \<open>
  C3, amended. For every line that fits the line buffer and has fewer tokens than the
  caller's array has entries: when the line has at least one token, \<open>parseline\<close>
  returns 1 and removes the last token if the first character of that token is \<open>&\<close>,
  and returns 0 and removes nothing otherwise; when the line has no token it
  returns 1.
\<close>

theorem parseline_background_flag:
  assumes "NUL \<notin> set line" and "line \<noteq> []" and "length line < MAXLINE"
    and "length (raw_tokens line) < length av"
  shows "parsed line av =
           Inr (if raw_tokens line = [] then (1, [])
                else if starts_with_amp (last (raw_tokens line)) then (1, butlast (raw_tokens line))
                else (0, raw_tokens line))"
  using assms by (rule parsed_result)

theorem parseline_background_flag_witness:
  "NUL \<notin> set (''ls -l &'' @ [NEWLINE]) \<and> ''ls -l &'' @ [NEWLINE] \<noteq> [] \<and>
   length (''ls -l &'' @ [NEWLINE]) < MAXLINE \<and>
   length (raw_tokens (''ls -l &'' @ [NEWLINE])) < length (replicate MAXARGS (None :: string option)) \<and>
   raw_tokens (''ls -l &'' @ [NEWLINE]) = [''ls'', ''-l'', ''&''] \<and>
   parsed (''ls -l &'' @ [NEWLINE]) (replicate MAXARGS None) = Inr (1, [''ls'', ''-l'']) \<and>
   raw_tokens (''ls -l'' @ [NEWLINE]) = [''ls'', ''-l''] \<and>
   parsed (''ls -l'' @ [NEWLINE]) (replicate MAXARGS None) = Inr (0, [''ls'', ''-l''])"
proof -
  have r1: "raw_tokens (''ls -l &'' @ [NEWLINE]) = [''ls'', ''-l'', ''&'']"
    by (simp add: raw_tokens_def c_str_def tokens.simps find_delim_def)
  have r2: "raw_tokens (''ls -l'' @ [NEWLINE]) = [''ls'', ''-l'']"
    by (simp add: raw_tokens_def c_str_def tokens.simps find_delim_def)
  have "parsed (''ls -l &'' @ [NEWLINE]) (replicate MAXARGS None) = Inr (1, [''ls'', ''-l''])"
    using parseline_background_flag [of "''ls -l &'' @ [NEWLINE]" "replicate MAXARGS None"] r1
    by (simp add: MAXLINE_def MAXARGS_def starts_with_amp_def)
  moreover have "parsed (''ls -l'' @ [NEWLINE]) (replicate MAXARGS None) = Inr (0, [''ls'', ''-l''])"
    using parseline_background_flag [of "''ls -l'' @ [NEWLINE]" "replicate MAXARGS None"] r2
    by (simp add: MAXLINE_def MAXARGS_def starts_with_amp_def)
  ultimately show ?thesis using r1 r2 by (simp add: MAXLINE_def MAXARGS_def)
qed

subsection \<open>The capacity of the argument array\<close>

lemma length_concat_replicate: "length (concat (replicate n x)) = n * length x"
  by (induction n) simp_all

text \<open>
  C4 does not hold of the code: \<open>parseline\<close> never compares \<open>argc\<close> with \<open>MAXARGS\<close>.
  A line of 129 one-letter tokens is 258 characters long, well within the line
  buffer, and makes \<open>parseline\<close> store a token pointer in \<open>argv[128]\<close>, outside the
  array \<open>char* argv[MAXARGS]\<close> of \<open>eval\<close>.
\<close>

theorem parseline_overflows_argv:
  "length (concat (replicate 128 ''a '') @ ''a'' @ [NEWLINE]) < MAXLINE \<and>
   raw_tokens (concat (replicate 128 ''a '') @ ''a'' @ [NEWLINE]) = replicate 129 ''a'' \<and>
   parseline (concat (replicate 128 ''a '') @ ''a'' @ [NEWLINE]) (map garbage [0..<MAXARGS]) =
     Inl (ArgvOverflow MAXARGS) \<and>
   eval (concat (replicate 128 ''a '') @ ''a'' @ [NEWLINE]) garbage pid exec_ok s =
     Faulted (ArgvOverflow MAXARGS)"
proof -
  let ?line = "concat (replicate 128 ''a '') @ ''a'' @ [NEWLINE]"
  have len: "length ?line < MAXLINE"
    by (simp add: length_concat_replicate MAXLINE_def)
  have nul: "NUL \<notin> set ?line" by auto
  then have c: "c_str ?line = ?line" by (rule c_str_id)
  have ne: "?line \<noteq> []" by simp
  have r: "raw_tokens ?line = replicate 129 ''a''"
    using raw_tokens_many [of 128] by simp
  have "length (map garbage [0..<MAXARGS]) \<le> length (raw_tokens ?line)"
    unfolding r by (simp add: MAXARGS_def)
  from parseline_overflows [OF nul ne len this]
  have p: "parseline ?line (map garbage [0..<MAXARGS]) = Inl (ArgvOverflow MAXARGS)"
    by simp
  have "eval ?line garbage pid exec_ok s = Faulted (ArgvOverflow MAXARGS)"
    using c len p by (simp add: eval_def Let_def)
  with len r p show ?thesis by simp
qed

subsection \<open>Blank lines in eval\<close>

text \<open>
  C8, as stated, fails for a line of white space that is not made of spaces: for a
  tab followed by the newline \<open>parseline\<close> yields the token made of the tab, and \<open>eval\<close>
  forks a child (here 42, which then ends with status 1) and waits for it.
\<close>

theorem eval_blank_counterexample:
  "list_all isspace [CHR 0x09, NEWLINE] \<and>
   eval [CHR 0x09, NEWLINE] null_argv 42 True
     ((tracking 0 0)\<lparr>inbox := [[], [], [], [], [], [ChildExit 42 (WEXITED 1)]]\<rparr>) =
   Returned ()
     ((tracking 0 0)\<lparr>trace := [EvBlock, EvFork 42 relayed, EvRecord 42 relayed, EvSuspend,
                                  EvHandler SIGCHLD, EvResume, EvRestore]\<rparr>)"
proof -
  let ?line = "[CHR 0x09, NEWLINE]"
  let ?av = "map null_argv [0..<MAXARGS]"
  have nul: "NUL \<notin> set ?line" by simp
  then have c: "c_str ?line = ?line" by (rule c_str_id)
  have r: "raw_tokens ?line = [[CHR 0x09]]"
    by (simp add: raw_tokens_def c_str_def tokens.simps find_delim_def)
  obtain rest where p: "parseline ?line ?av = Inr (0, Some [CHR 0x09] # None # rest)"
    using parseline_array [OF nul, of ?av] r
    by (simp add: MAXARGS_def MAXLINE_def starts_with_amp_def)
  have b: "builtin_cmd (Some [CHR 0x09] # None # rest) s = Returned 0 s" for s
    by (simp add: builtin_cmd_def argv_load_def)
  have "eval [CHR 0x09, NEWLINE] null_argv 42 True
     ((tracking 0 0)\<lparr>inbox := [[], [], [], [], [], [ChildExit 42 (WEXITED 1)]]\<rparr>) =
   Returned ()
     ((tracking 0 0)\<lparr>trace := [EvBlock, EvFork 42 relayed, EvRecord 42 relayed, EvSuspend,
                                  EvHandler SIGCHLD, EvResume, EvRestore]\<rparr>)"
    using c p b
    by (simp add: eval_def Let_def MAXLINE_def argv_load_def eval_launch_def async_def
        tracking_def logged_def waitfg.simps sigsuspend_def deliver_pending_def
        deliverable_def delivery_order_def all_signals_def raise_signal_def has_handler_def recorded_def
        sigchld_handler.simps waitpid_nohang_def reaped_def)
  then show ?thesis by (simp add: isspace_def)
qed

text \<open>
  C8, amended. For every line that consists of space characters only, followed by the
  newline (the empty line included), \<open>parseline\<close> yields no token and \<open>eval\<close> returns
  at once with the state it was given: no fork, no change of the tracking variables,
  no output, no error.
\<close>

theorem eval_blank_is_noop:
  assumes "n + 1 < MAXLINE"
  shows "parsed (replicate n SPACE @ [NEWLINE]) (map garbage [0..<MAXARGS]) = Inr (1, []) \<and>
         eval (replicate n SPACE @ [NEWLINE]) garbage pid exec_ok s = Returned () s"
proof -
  let ?line = "replicate n SPACE @ [NEWLINE]"
  have nul: "NUL \<notin> set ?line" by auto
  have r: "raw_tokens ?line = []" by (rule raw_tokens_blank) simp
  have "parsed ?line (map garbage [0..<MAXARGS]) = Inr (1, [])"
    using parsed_result [OF nul, of "map garbage [0..<MAXARGS]"] assms r
    by (simp add: MAXARGS_def)
  then show ?thesis using eval_blank [OF assms] by simp
qed

theorem eval_blank_is_noop_witness:
  "(2::nat) + 1 < MAXLINE \<and>
   parsed (''  '' @ [NEWLINE]) (map (\<lambda>_. Some ''junk'') [0..<MAXARGS]) = Inr (1, []) \<and>
   eval (''  '' @ [NEWLINE]) (\<lambda>_. Some ''junk'') 42 True (tracking 0 9) = Returned () (tracking 0 9)"
proof -
  have a: "(2::nat) + 1 < MAXLINE" by (simp add: MAXLINE_def)
  have c: "replicate 2 SPACE = ''  ''" by (simp add: numeral_2_eq_2)
  show ?thesis
    using a eval_blank_is_noop [OF a, of "\<lambda>_. Some ''junk''" 42 True "tracking 0 9"]
    by (simp add: c)
qed

subsection \<open>Tokenization\<close>

lemma strchr_found: "c \<notin> set pre \<Longrightarrow> strchr (pre @ c # post) c = Some (pre, post)"
  by (induction pre) auto

lemma find_delim_plain:
  assumes "t \<noteq> []" and "hd t \<noteq> QUOTE" and "SPACE \<notin> set t"
  shows "find_delim (t @ SPACE # rest) = Some (t, rest)"
proof -
  obtain c cs where t: "t = c # cs" using assms(1) by (cases t) auto
  with assms have "find_delim (t @ SPACE # rest) = strchr (t @ SPACE # rest) SPACE"
    by (simp add: find_delim_def)
  with assms(3) show ?thesis by (simp add: strchr_found)
qed

lemma find_delim_quoted:
  assumes "QUOTE \<notin> set q"
  shows "find_delim (QUOTE # q @ QUOTE # rest) = Some (q, rest)"
  using assms by (simp add: find_delim_def strchr_found)

lemma render_no_leading_space: "well_formed w \<Longrightarrow> \<exists>c cs. render w = c # cs \<and> c \<noteq> SPACE"
proof (cases w)
  case (Plain t)
  assume "well_formed w"
  with Plain obtain c cs where "t = c # cs" and "c \<noteq> SPACE"
    by (cases t) auto
  with Plain show ?thesis by auto
next
  case (Quoted q)
  then show ?thesis by simp
qed

lemma skip_spaces_spaced: "list_all well_formed ws \<Longrightarrow> skip_spaces (spaced ws) = spaced ws"
proof (cases ws)
  case Nil
  then show ?thesis by (simp add: spaced_def)
next
  case (Cons w ws')
  assume "list_all well_formed ws"
  with Cons obtain c cs where "render w = c # cs" and "c \<noteq> SPACE"
    using render_no_leading_space [of w] by auto
  with Cons show ?thesis by (simp add: spaced_def)
qed

lemma tokens_spaced: "list_all well_formed ws \<Longrightarrow> tokens (spaced ws) = map denotes ws"
proof (induction ws)
  case Nil
  then show ?case by (simp add: spaced_def tokens_None find_delim_def)
next
  case (Cons w ws)
  then have wf: "well_formed w" and wfs: "list_all well_formed ws" by simp_all
  have sk: "skip_spaces (spaced ws) = spaced ws" using wfs by (rule skip_spaces_spaced)
  have sp: "spaced (w # ws) = render w @ SPACE # spaced ws" by (simp add: spaced_def)
  show ?case
  proof (cases w)
    case (Plain t)
    with wf have "t \<noteq> []" and "hd t \<noteq> QUOTE" and "SPACE \<notin> set t"
      by (cases t; auto simp: list_all_iff)+
    then have "find_delim (t @ SPACE # spaced ws) = Some (t, spaced ws)"
      by (rule find_delim_plain)
    with Plain sp sk Cons.IH [OF wfs] show ?thesis by (simp add: tokens_Some)
  next
    case (Quoted q)
    with wf have "QUOTE \<notin> set q" by (auto simp: list_all_iff)
    then have "find_delim (QUOTE # q @ QUOTE # SPACE # spaced ws) = Some (q, SPACE # spaced ws)"
      by (rule find_delim_quoted)
    with Quoted sp sk Cons.IH [OF wfs] show ?thesis by (simp add: tokens_Some)
  qed
qed

lemma join_words_spaced:
  "xs \<noteq> [] \<Longrightarrow> join_words xs @ [SPACE] = concat (map (\<lambda>x. x @ [SPACE]) xs)"
  by (induction xs rule: join_words.induct) simp_all

lemma render_no_nul: "well_formed w \<Longrightarrow> NUL \<notin> set (render w)"
  by (cases w) (auto simp: list_all_iff)

lemma join_words_no_nul: "\<forall>x \<in> set xs. NUL \<notin> set x \<Longrightarrow> NUL \<notin> set (join_words xs)"
  by (induction xs rule: join_words.induct) auto

lemma line_of_no_nul: "list_all well_formed ws \<Longrightarrow> NUL \<notin> set (line_of ws)"
  using join_words_no_nul [of "map render ws"] render_no_nul
  by (auto simp: line_of_def list_all_iff)

lemma raw_tokens_line_of:
  assumes "list_all well_formed ws"
  shows "raw_tokens (line_of ws) = map denotes ws"
proof -
  have c: "c_str (line_of ws) = line_of ws"
    using assms by (intro c_str_id line_of_no_nul)
  have "butlast (line_of ws) @ [SPACE] = (if ws = [] then [SPACE] else spaced ws)"
    using join_words_spaced [of "map render ws"]
    by (simp add: line_of_def spaced_def comp_def)
  moreover have "skip_spaces [SPACE] = spaced []" by (simp add: spaced_def)
  ultimately have "skip_spaces (butlast (line_of ws) @ [SPACE]) = spaced ws"
    using skip_spaces_spaced [OF assms] by (cases "ws = []") simp_all
  with c show ?thesis by (simp add: raw_tokens_def tokens_spaced [OF assms])
qed

lemma split_at_run:
  "list_all (\<lambda>c. \<not> d c) t \<Longrightarrow> split_at d cur (t @ rest) = split_at d (cur @ t) rest"
  by (induction t arbitrary: cur) simp_all

lemma split_at_word:
  assumes "t \<noteq> []" and "list_all (\<lambda>c. \<not> d c) t" and "d c"
  shows "split_at d [] (t @ c # rest) = t # split_at d [] rest"
  using assms split_at_run [of d t "[]" "c # rest"] by simp

lemma split_at_last:
  assumes "t \<noteq> []" and "list_all (\<lambda>c. \<not> d c) t"
  shows "split_at d [] t = [t]"
  using assms split_at_run [of d t "[]" "[]"] by simp

lemma space_split_plain:
  assumes "list_all well_formed ws" and "list_all is_plain ws"
  shows "space_split (butlast (line_of ws)) = map denotes ws"
proof -
  have "split_at (\<lambda>c. c = SPACE) [] (join_words (map render ws)) = map denotes ws"
    using assms
  proof (induction ws rule: induct_list012)
    case 1
    then show ?case by simp
  next
    case (2 w)
    then obtain t where w: "w = Plain t" by (cases w) auto
    with 2 have "t \<noteq> []" and "list_all (\<lambda>c. \<not> c = SPACE) t" by (auto simp: list_all_iff)
    with w show ?case by (simp add: split_at_last)
  next
    case (3 w v ws)
    then obtain t where w: "w = Plain t" by (cases w) auto
    with 3 have t: "t \<noteq> []" "list_all (\<lambda>c. \<not> c = SPACE) t" by (auto simp: list_all_iff)
    have "split_at (\<lambda>c. c = SPACE) [] (join_words (map render (v # ws))) = map denotes (v # ws)"
      using 3 by simp
    with w show ?case using split_at_word [OF t, of SPACE] by simp
  qed
  then show ?thesis by (simp add: space_split_def line_of_def)
qed

text \<open>
  C6, as stated, fails in two ways. When the last token begins with \<open>&\<close> it is removed:
  the white-space split of the line \<open>ls &\<close> has two tokens, and \<open>parseline\<close> produces
  one. And \<open>parseline\<close> splits at the space character only: the white-space split of
  the line made of \<open>ls\<close> and a tab is the token \<open>ls\<close>, and \<open>parseline\<close> produces the
  token made of \<open>ls\<close> and the tab.
\<close>

theorem tokenization_counterexample:
  "whitespace_split (''ls &'' @ [NEWLINE]) = [''ls'', ''&''] \<and>
   parsed (''ls &'' @ [NEWLINE]) (replicate MAXARGS None) = Inr (1, [''ls'']) \<and>
   whitespace_split (''ls'' @ [CHR 0x09, NEWLINE]) = [''ls''] \<and>
   parsed (''ls'' @ [CHR 0x09, NEWLINE]) (replicate MAXARGS None) = Inr (0, [''ls'' @ [CHR 0x09]])"
proof -
  have r: "raw_tokens (''ls &'' @ [NEWLINE]) = [''ls'', ''&'']"
    by (simp add: raw_tokens_def c_str_def tokens.simps find_delim_def)
  have "parsed (''ls &'' @ [NEWLINE]) (replicate MAXARGS None) = Inr (1, [''ls''])"
    using parsed_result [of "''ls &'' @ [NEWLINE]" "replicate MAXARGS None"] r
    by (simp add: MAXLINE_def MAXARGS_def starts_with_amp_def)
  moreover have "whitespace_split (''ls &'' @ [NEWLINE]) = [''ls'', ''&'']"
    by (simp add: whitespace_split_def isspace_def)
  moreover have r': "raw_tokens (''ls'' @ [CHR 0x09, NEWLINE]) = [''ls'' @ [CHR 0x09]]"
    by (simp add: raw_tokens_def c_str_def tokens.simps find_delim_def)
  have "parsed (''ls'' @ [CHR 0x09, NEWLINE]) (replicate MAXARGS None) = Inr (0, [''ls'' @ [CHR 0x09]])"
    using parsed_result [of "''ls'' @ [CHR 0x09, NEWLINE]" "replicate MAXARGS None"] r'
    by (simp add: MAXLINE_def MAXARGS_def starts_with_amp_def)
  moreover have "whitespace_split (''ls'' @ [CHR 0x09, NEWLINE]) = [''ls'']"
    by (simp add: whitespace_split_def isspace_def)
  ultimately show ?thesis by simp
qed

text \<open>
  C6, amended. Take a line of fewer than \<open>MAXARGS\<close> words separated by single spaces
  and ended by a newline, shorter than \<open>MAXLINE\<close>, where a word is either plain (not
  empty, without space or quote characters) or a text without quote characters
  enclosed in single quotes. Then \<open>parseline\<close> produces one token for each word, in
  order: a plain word itself, and for a quoted word the text between the quotes,
  spaces included; except that a last token beginning with \<open>&\<close> is removed (and 1
  returned instead of 0). When all words are plain, the tokens before that removal
  are the split of the line, without its newline, at its space characters; white
  space other than the space is part of a token.
\<close>

theorem parseline_tokenizes:
  assumes "list_all well_formed ws" and "length ws < MAXARGS" and "length av = MAXARGS"
    and "length (line_of ws) < MAXLINE"
  shows "parsed (line_of ws) av =
           Inr (if ws = [] then (1, [])
                else if starts_with_amp (denotes (last ws)) then (1, map denotes (butlast ws))
                else (0, map denotes ws)) \<and>
         (list_all is_plain ws \<longrightarrow> space_split (butlast (line_of ws)) = map denotes ws)"
proof -
  have r: "raw_tokens (line_of ws) = map denotes ws"
    using assms(1) by (rule raw_tokens_line_of)
  have "parsed (line_of ws) av =
           Inr (if raw_tokens (line_of ws) = [] then (1, [])
                else if starts_with_amp (last (raw_tokens (line_of ws)))
                then (1, butlast (raw_tokens (line_of ws)))
                else (0, raw_tokens (line_of ws)))"
  proof (rule parsed_result)
    show "NUL \<notin> set (line_of ws)" using assms(1) by (rule line_of_no_nul)
    show "line_of ws \<noteq> []" by (simp add: line_of_def)
    show "length (line_of ws) < MAXLINE" by (rule assms(4))
    show "length (raw_tokens (line_of ws)) < length av" using assms(2,3) r by simp
  qed
  then have "parsed (line_of ws) av =
           Inr (if ws = [] then (1, [])
                else if starts_with_amp (denotes (last ws)) then (1, map denotes (butlast ws))
                else (0, map denotes ws))"
    unfolding r by (simp add: last_map map_butlast)
  then show ?thesis using space_split_plain [OF assms(1)] by simp
qed

theorem parseline_tokenizes_witness:
  "list_all well_formed [Plain ''echo'', Quoted ''a  b'', Plain ''c''] \<and>
   line_of [Plain ''echo'', Quoted ''a  b'', Plain ''c''] =
     ''echo '' @ [QUOTE] @ ''a  b'' @ [QUOTE] @ '' c'' @ [NEWLINE] \<and>
   parsed (''echo '' @ [QUOTE] @ ''a  b'' @ [QUOTE] @ '' c'' @ [NEWLINE]) (replicate MAXARGS None) =
     Inr (0, [''echo'', ''a  b'', ''c'']) \<and>
   list_all well_formed [Plain ''ls'', Plain (''-l'' @ [CHR 0x0D])] \<and>
   list_all is_plain [Plain ''ls'', Plain (''-l'' @ [CHR 0x0D])] \<and>
   line_of [Plain ''ls'', Plain (''-l'' @ [CHR 0x0D])] = ''ls -l'' @ [CHR 0x0D, NEWLINE] \<and>
   parsed (''ls -l'' @ [CHR 0x0D, NEWLINE]) (replicate MAXARGS None) =
     Inr (0, [''ls'', ''-l'' @ [CHR 0x0D]]) \<and>
   space_split (butlast (''ls -l'' @ [CHR 0x0D, NEWLINE])) = [''ls'', ''-l'' @ [CHR 0x0D]]"
proof -
  have w1: "list_all well_formed [Plain ''echo'', Quoted ''a  b'', Plain ''c'']"
    and w2: "list_all well_formed [Plain ''ls'', Plain (''-l'' @ [CHR 0x0D])]"
    and p2: "list_all is_plain [Plain ''ls'', Plain (''-l'' @ [CHR 0x0D])]"
    by simp_all
  have l1: "line_of [Plain ''echo'', Quoted ''a  b'', Plain ''c''] =
     ''echo '' @ [QUOTE] @ ''a  b'' @ [QUOTE] @ '' c'' @ [NEWLINE]"
    and l2: "line_of [Plain ''ls'', Plain (''-l'' @ [CHR 0x0D])] = ''ls -l'' @ [CHR 0x0D, NEWLINE]"
    by (simp_all add: line_of_def)
  have n: "length (replicate MAXARGS (None :: string option)) = MAXARGS" by simp
  have "parsed (line_of [Plain ''echo'', Quoted ''a  b'', Plain ''c'']) (replicate MAXARGS None) =
     Inr (0, [''echo'', ''a  b'', ''c''])"
    using parseline_tokenizes [OF w1 _ n]
    by (simp add: MAXARGS_def MAXLINE_def line_of_def starts_with_amp_def)
  moreover have "parsed (line_of [Plain ''ls'', Plain (''-l'' @ [CHR 0x0D])]) (replicate MAXARGS None) =
        Inr (0, [''ls'', ''-l'' @ [CHR 0x0D]])
      \<and> space_split (butlast (line_of [Plain ''ls'', Plain (''-l'' @ [CHR 0x0D])])) =
        [''ls'', ''-l'' @ [CHR 0x0D]]"
    using parseline_tokenizes [OF w2 _ n] p2
    by (simp add: MAXARGS_def MAXLINE_def line_of_def starts_with_amp_def)
  ultimately show ?thesis using w1 w2 p2 unfolding l1 l2 by simp
qed

subsection \<open>The fork window\<close>












lemma sigquit_not_relayed: "SIGQUIT \<notin> relayed"
  by (simp add: relayed_def)



















end
